theory Spec2Isabelle
  imports Main
begin

section \<open>Python built-ins used by the trace driver\<close>

text \<open>
  The driver \<^verbatim>\<open>src/ucode_dump/models/disasm.py\<close> uses three built-ins of Python:
  \<^verbatim>\<open>str.strip()\<close>, the format specification \<^verbatim>\<open>0Nx\<close> of an f-string, and
  \<^verbatim>\<open>filter\<close> over a \<^verbatim>\<open>range\<close>. Strings are lists of characters; a character is
  a code point below 256, which covers the ASCII text of a disassembly.
\<close>

definition isspace :: "char \<Rightarrow> bool" where
  \<comment> \<open>\<^verbatim>\<open>str.isspace\<close> on one code point below 256: TAB..CR, FS..US, space, NEL, NBSP.\<close>
  "isspace c =
     (let n = (of_char c :: nat)
      in (9 \<le> n \<and> n \<le> 13) \<or> (28 \<le> n \<and> n \<le> 32) \<or> n = 133 \<or> n = 160)"

definition lstrip :: "string \<Rightarrow> string" where
  "lstrip s = dropWhile isspace s"

definition rstrip :: "string \<Rightarrow> string" where
  "rstrip s = rev (dropWhile isspace (rev s))"

definition strip :: "string \<Rightarrow> string" where
  \<comment> \<open>\<^verbatim>\<open>s.strip()\<close>: leading and trailing whitespace removed.\<close>
  "strip s = rstrip (lstrip s)"

definition hexdigits :: string where
  "hexdigits = ''0123456789abcdef''"

definition hex_digit :: "nat \<Rightarrow> char" where
  "hex_digit d = hexdigits ! d"

fun hex_nat :: "nat \<Rightarrow> string" where
  \<comment> \<open>the lowercase hexadecimal numeral of a natural number, without leading zeros\<close>
  "hex_nat n = (if n < 16 then [hex_digit n] else hex_nat (n div 16) @ [hex_digit (n mod 16)])"

declare hex_nat.simps [simp del]

definition zfill :: "nat \<Rightarrow> string \<Rightarrow> string" where
  "zfill width s = replicate (width - length s) (CHR ''0'') @ s"

definition format_0x :: "nat \<Rightarrow> int \<Rightarrow> string" where
  \<comment> \<open>\<^verbatim>\<open>f'{n:0Wx}'\<close>: the sign first (only a minus sign is printed), then zeros up to
      the total width W, then the digits; a numeral wider than W is printed whole.\<close>
  "format_0x width n =
     (if n < 0 then CHR ''-'' # zfill (width - 1) (hex_nat (nat (- n)))
      else zfill width (hex_nat (nat n)))"

section \<open>What the specification calls a field of k hex digits\<close>

definition digit_of :: "char \<Rightarrow> nat" where
  \<comment> \<open>position of a character among the lowercase hex digits (16 if it is none)\<close>
  "digit_of c = length (takeWhile (\<lambda>d. d \<noteq> c) hexdigits)"

definition hex_value :: "string \<Rightarrow> nat" where
  "hex_value s = foldl (\<lambda>acc c. 16 * acc + digit_of c) 0 s"

definition is_hex_field :: "nat \<Rightarrow> nat \<Rightarrow> string \<Rightarrow> bool" where
  \<comment> \<open>"n formatted as k hex digits, zero-padded, lowercase": exactly k characters, each a
      lowercase hex digit, reading as n in base 16.\<close>
  "is_hex_field k n s \<longleftrightarrow>
     length s = k \<and> list_all (\<lambda>c. c \<in> set hexdigits) s \<and> hex_value s = n"

section \<open>The external module \<^verbatim>\<open>uasm\<close> and the observable actions of a run\<close>

text \<open>
  The module \<^verbatim>\<open>uasm\<close> is not part of the sources, so its functions are parameters of
  the model. Each of them may read the module global \<^verbatim>\<open>uasm.cpuid_\<close>, which is
  therefore their first argument. The two loaders may raise (\<open>Inl\<close> carries the
  message); the two decoders are total and free of side effects, as sections 4.3 and
  4.4 of the specification require. \<^verbatim>\<open>os.path.join\<close> depends on the platform and is a
  parameter as well.
\<close>

record uasm =
  load_ms_array_str_data :: "string \<Rightarrow> string \<Rightarrow> string + int list"
  load_labels :: "string \<Rightarrow> string \<Rightarrow> string + (nat \<rightharpoonup> string)"
  uop_disassemble :: "string \<Rightarrow> int \<Rightarrow> nat \<Rightarrow> string"
  process_seqword :: "string \<Rightarrow> nat \<Rightarrow> int \<Rightarrow> int \<Rightarrow> bool \<Rightarrow> string"
  path_join :: "string list \<Rightarrow> string"

datatype py_error = AssertionError | IndexError | Raised string

text \<open>
  One constructor for each statement of \<^verbatim>\<open>main\<close> that acts on the world: the assignment
  to the global, the calls into \<^verbatim>\<open>uasm\<close> (with the value of the global at the call and
  the arguments), and the three \<^verbatim>\<open>print\<close> statements (with the text of the line).
\<close>

datatype event =
    Assign_cpuid string
  | Call_load_ms_array_str_data string string
  | Call_load_labels string string
  | Print_blank
  | Call_uop_disassemble string int nat
  | Call_process_seqword string nat int int bool
  | Print_label string
  | Print_data string

fun printed :: "event \<Rightarrow> string list" where
  "printed Print_blank = [[]]"
| "printed (Print_label l) = [l]"
| "printed (Print_data l) = [l]"
| "printed _ = []"

definition stdout_lines :: "event list \<Rightarrow> string list" where
  "stdout_lines es = concat (map printed es)"

fun is_assign :: "event \<Rightarrow> bool" where
  "is_assign (Assign_cpuid _) = True"
| "is_assign _ = False"

fun is_load :: "event \<Rightarrow> bool" where
  "is_load (Call_load_ms_array_str_data _ _) = True"
| "is_load (Call_load_labels _ _) = True"
| "is_load _ = False"

fun is_decode :: "event \<Rightarrow> bool" where
  "is_decode (Call_uop_disassemble _ _ _) = True"
| "is_decode (Call_process_seqword _ _ _ _ _) = True"
| "is_decode _ = False"

fun is_label :: "event \<Rightarrow> bool" where
  "is_label (Print_label _) = True"
| "is_label _ = False"

fun is_data :: "event \<Rightarrow> bool" where
  "is_data (Print_data _) = True"
| "is_data _ = False"

fun global_seen :: "event \<Rightarrow> string option" where
  \<comment> \<open>the value of \<^verbatim>\<open>uasm.cpuid_\<close> that a call into \<^verbatim>\<open>uasm\<close> finds\<close>
  "global_seen (Call_load_ms_array_str_data g _) = Some g"
| "global_seen (Call_load_labels g _) = Some g"
| "global_seen (Call_uop_disassemble g _ _) = Some g"
| "global_seen (Call_process_seqword g _ _ _ _) = Some g"
| "global_seen _ = None"

fun control_word :: "event \<Rightarrow> int list" where
  \<comment> \<open>the control word (third argument, \<^verbatim>\<open>seqword\<close>) handed to \<^verbatim>\<open>process_seqword\<close>\<close>
  "control_word (Call_process_seqword _ _ _ seqword _) = [seqword]"
| "control_word _ = []"

definition control_words :: "event list \<Rightarrow> int list" where
  "control_words es = concat (map control_word es)"

section \<open>The trace driver\<close>

definition trace :: "nat list" where
  \<comment> \<open>\<^verbatim>\<open>trace = filter(lambda x: x % 4 != 3, range(0x7c00))\<close>\<close>
  "trace = filter (\<lambda>x. x mod 4 \<noteq> 3) [0..<0x7c00]"

definition before_annotation :: "string \<Rightarrow> string" where
  \<comment> \<open>lines 26, 29 and 30: the trimmed text, with one space after it unless it is empty\<close>
  "before_annotation raw =
     (let disasm_seqw_before = strip raw
      in if disasm_seqw_before \<noteq> [] then disasm_seqw_before @ '' '' else disasm_seqw_before)"

definition data_line :: "nat \<Rightarrow> int \<Rightarrow> string \<Rightarrow> string \<Rightarrow> string \<Rightarrow> string" where
  \<comment> \<open>line 34: \<^verbatim>\<open>f'U{uaddr:04x}: {uop:012x} {disasm_seqw_before}{disasm_uop} {disasm_seqw_after}'\<close>\<close>
  "data_line uaddr uop disasm_seqw_before disasm_uop disasm_seqw_after =
     ''U'' @ format_0x 4 (int uaddr) @ '': '' @ format_0x 12 uop @ '' '' @
     disasm_seqw_before @ disasm_uop @ '' '' @ disasm_seqw_after"

definition visit ::
  "uasm \<Rightarrow> string \<Rightarrow> int list \<Rightarrow> int list \<Rightarrow> (nat \<rightharpoonup> string) \<Rightarrow> nat
     \<Rightarrow> event list \<times> py_error option" where
  \<comment> \<open>The body of the loop (lines 17 to 34) at one address: the actions it performs, in
      order, and the exception that ends it, if any. \<open>g\<close> is the global \<^verbatim>\<open>uasm.cpuid_\<close>.\<close>
  "visit U g ucode seqwords labels uaddr =
     (if \<not> uaddr < 0x7c00 then ([], Some AssertionError)
      else
        let sep = (if uaddr mod 4 = 0 \<and> uaddr > 0 then [Print_blank] else [])
        in if \<not> uaddr < length ucode then (sep, Some IndexError)
           else
             let uop = ucode ! uaddr
             in if \<not> uaddr div 4 * 4 < length seqwords then (sep, Some IndexError)
                else
                  let seqword = seqwords ! (uaddr div 4 * 4);
                      disasm_uop = strip (uop_disassemble U g uop uaddr);
                      disasm_seqw_before = before_annotation (process_seqword U g uaddr uop seqword True);
                      disasm_seqw_after = strip (process_seqword U g uaddr uop seqword False)
                  in (sep @
                      [Call_uop_disassemble g uop uaddr,
                       Call_process_seqword g uaddr uop seqword True,
                       Call_process_seqword g uaddr uop seqword False] @
                      (case labels uaddr of None \<Rightarrow> [] | Some name \<Rightarrow> [Print_label (name @ '':'')]) @
                      [Print_data (data_line uaddr uop disasm_seqw_before disasm_uop disasm_seqw_after)],
                      None))"

fun for_loop ::
  "(nat \<Rightarrow> event list \<times> py_error option) \<Rightarrow> nat list
     \<Rightarrow> (nat \<times> event list) list \<times> py_error option" where
  \<comment> \<open>\<^verbatim>\<open>for uaddr in trace: body\<close>: one entry for each iteration that was started, with
      its address and its actions; an exception ends the loop.\<close>
  "for_loop body [] = ([], None)"
| "for_loop body (uaddr # rest) =
     (case body uaddr of
        (es, Some err) \<Rightarrow> ([(uaddr, es)], Some err)
      | (es, None) \<Rightarrow> (case for_loop body rest of (its, r) \<Rightarrow> ((uaddr, es) # its, r)))"

record run =
  prologue :: "event list"
  iterations :: "(nat \<times> event list) list"
  outcome :: "py_error option"

definition main :: "uasm \<Rightarrow> string \<Rightarrow> run" where
  \<comment> \<open>\<^verbatim>\<open>main(cpuid)\<close>, lines 5 to 34. After line 8 the global holds \<open>cpuid\<close>.\<close>
  "main U cpuid =
     (let arrays_dump_dir = ''.'';
          g = cpuid;
          p0 = path_join U [arrays_dump_dir, cpuid, ''ms_array0.txt''];
          p1 = path_join U [arrays_dump_dir, cpuid, ''ms_array1.txt''];
          p2 = path_join U [arrays_dump_dir, ''labels.csv''];
          e0 = [Assign_cpuid cpuid, Call_load_ms_array_str_data g p0];
          e1 = e0 @ [Call_load_ms_array_str_data g p1];
          e2 = e1 @ [Call_load_labels g p2]
      in case load_ms_array_str_data U g p0 of
           Inl m \<Rightarrow> \<lparr>prologue = e0, iterations = [], outcome = Some (Raised m)\<rparr>
         | Inr ucode \<Rightarrow>
             (case load_ms_array_str_data U g p1 of
                Inl m \<Rightarrow> \<lparr>prologue = e1, iterations = [], outcome = Some (Raised m)\<rparr>
              | Inr seqwords \<Rightarrow>
                  (case load_labels U g p2 of
                     Inl m \<Rightarrow> \<lparr>prologue = e2, iterations = [], outcome = Some (Raised m)\<rparr>
                   | Inr labels \<Rightarrow>
                       (case for_loop (visit U g ucode seqwords labels) trace of
                          (its, r) \<Rightarrow> \<lparr>prologue = e2, iterations = its, outcome = r\<rparr>))))"

definition visited :: "run \<Rightarrow> nat list" where
  "visited r = map fst (iterations r)"

definition events :: "run \<Rightarrow> event list" where
  "events r = prologue r @ concat (map snd (iterations r))"

definition emitted_for :: "run \<Rightarrow> nat \<Rightarrow> event list" where
  \<comment> \<open>everything done in the iterations of address \<open>a\<close>\<close>
  "emitted_for r a = concat (map snd (filter (\<lambda>it. fst it = a) (iterations r)))"

definition base :: "nat \<Rightarrow> nat" where
  \<comment> \<open>the quad base of the specification: \<^verbatim>\<open>base(a) = a - (a mod 4)\<close>\<close>
  "base a = a - a mod 4"

definition stores_loaded ::
  "uasm \<Rightarrow> string \<Rightarrow> int list \<Rightarrow> int list \<Rightarrow> (nat \<rightharpoonup> string) \<Rightarrow> bool" where
  \<comment> \<open>lines 10 to 12 return \<open>ucode\<close>, \<open>seqwords\<close> and \<open>labels\<close>\<close>
  "stores_loaded U cpuid ucode seqwords labels \<longleftrightarrow>
     load_ms_array_str_data U cpuid (path_join U [''.'', cpuid, ''ms_array0.txt'']) = Inr ucode \<and>
     load_ms_array_str_data U cpuid (path_join U [''.'', cpuid, ''ms_array1.txt'']) = Inr seqwords \<and>
     load_labels U cpuid (path_join U [''.'', ''labels.csv'']) = Inr labels"

section \<open>A concrete collaborator for closed instances\<close>

text \<open>
  The scenario of section 8 of the specification on the whole address range: the word at
  address \<open>a\<close> is \<open>a + 1\<close> (but a 49-bit word at address 9), the control word is \<open>0xA\<close>
  in quad 0 and \<open>0xB\<close> elsewhere, the mnemonic is \<^verbatim>\<open>OP\<close> with a space on either side,
  addresses 4 and 7 have the labels \<^verbatim>\<open>L4\<close> and \<^verbatim>\<open>L7\<close>, and only address 5 has a
  before-annotation. \<^verbatim>\<open>os.path.join\<close> is replaced by the last component, which is all the
  loaders of the scenario look at.
\<close>

definition scenario_ucode :: "int list" where
  "scenario_ucode = map (\<lambda>a. if a = 9 then 0x1000000000000 else int a + 1) [0..<0x7c00]"

definition scenario_seqwords :: "int list" where
  "scenario_seqwords = map (\<lambda>a. if a < 4 then 0xA else 0xB) [0..<0x7c00]"

definition scenario_labels :: "nat \<rightharpoonup> string" where
  "scenario_labels = [4 \<mapsto> ''L4'', 7 \<mapsto> ''L7'']"

definition scenario_uasm :: uasm where
  "scenario_uasm =
     \<lparr>load_ms_array_str_data =
        (\<lambda>g p. if p = ''ms_array0.txt'' then Inr scenario_ucode else Inr scenario_seqwords),
      load_labels = (\<lambda>g p. Inr scenario_labels),
      uop_disassemble = (\<lambda>g uop uaddr. '' OP ''),
      process_seqword = (\<lambda>g uaddr uop seqword before. if before \<and> uaddr = 5 then '' SEQW '' else []),
      path_join = last\<rparr>"

section \<open>Hexadecimal fields\<close>

lemma hex_digit_props:
  "d < 16 \<Longrightarrow> hex_digit d \<in> set hexdigits \<and> digit_of (hex_digit d) = d"
proof -
  assume "d < 16"
  then consider "d = 0" | "d = 1" | "d = 2" | "d = 3" | "d = 4" | "d = 5" | "d = 6" | "d = 7"
    | "d = 8" | "d = 9" | "d = 10" | "d = 11" | "d = 12" | "d = 13" | "d = 14" | "d = 15"
    by atomize_elim presburger
  then show ?thesis
    by cases (simp_all add: hex_digit_def digit_of_def hexdigits_def)
qed

lemma hex_value_snoc: "hex_value (s @ [c]) = 16 * hex_value s + digit_of c"
  by (simp add: hex_value_def)

lemma hex_value_hex_nat: "hex_value (hex_nat n) = n"
proof (induction n rule: hex_nat.induct)
  case (1 n)
  show ?case
  proof (cases "n < 16")
    case True
    then show ?thesis
      by (subst hex_nat.simps) (simp add: hex_value_def hex_digit_props)
  next
    case False
    with 1 show ?thesis
      by (subst hex_nat.simps) (simp add: hex_value_snoc hex_digit_props)
  qed
qed

lemma hex_nat_digits: "list_all (\<lambda>c. c \<in> set hexdigits) (hex_nat n)"
proof (induction n rule: hex_nat.induct)
  case (1 n)
  show ?case
  proof (cases "n < 16")
    case True
    then show ?thesis
      by (subst hex_nat.simps) (simp add: hex_digit_props)
  next
    case False
    with 1 show ?thesis
      by (subst hex_nat.simps) (simp add: hex_digit_props)
  qed
qed

lemma length_hex_nat_pos: "0 < length (hex_nat n)"
  by (subst hex_nat.simps) simp

lemma length_hex_nat_le: "n < 16 ^ Suc k \<Longrightarrow> length (hex_nat n) \<le> Suc k"
proof (induction k arbitrary: n)
  case 0
  then show ?case by (subst hex_nat.simps) simp
next
  case (Suc k)
  show ?case
  proof (cases "n < 16")
    case True
    then show ?thesis by (subst hex_nat.simps) simp
  next
    case False
    from Suc.prems have "n div 16 < 16 ^ Suc k"
      by (simp add: less_mult_imp_div_less mult.commute)
    then have "length (hex_nat (n div 16)) \<le> Suc k" by (rule Suc.IH)
    with False show ?thesis by (subst hex_nat.simps) simp
  qed
qed

lemma length_hex_nat_gt: "16 ^ k \<le> n \<Longrightarrow> k < length (hex_nat n)"
proof (induction k arbitrary: n)
  case 0
  show ?case using length_hex_nat_pos [of n] by simp
next
  case (Suc k)
  then have ge: "16 \<le> n"
    by (metis (no_types) le_trans one_le_numeral one_le_power power_Suc mult.right_neutral mult_le_mono2)
  from Suc.prems have "16 ^ k \<le> n div 16"
    by (simp add: less_eq_div_iff_mult_less_eq mult.commute)
  then have "k < length (hex_nat (n div 16))" by (rule Suc.IH)
  with ge show ?case by (subst hex_nat.simps) simp
qed

lemma digit_of_zero: "digit_of (CHR ''0'') = 0"
  by (simp add: digit_of_def hexdigits_def)

lemma hex_value_zeros: "hex_value (replicate m (CHR ''0'') @ s) = hex_value s"
  by (induction m) (simp_all add: hex_value_def digit_of_zero)

lemma digit_zero_in: "CHR ''0'' \<in> set hexdigits"
  by (simp add: hexdigits_def)

lemma zfill_hex_field:
  assumes "n < 16 ^ Suc k"
  shows "is_hex_field (Suc k) n (zfill (Suc k) (hex_nat n))"
  using length_hex_nat_le [OF assms] hex_nat_digits [of n]
  by (auto simp add: is_hex_field_def zfill_def hex_value_zeros hex_value_hex_nat digit_zero_in list_all_iff)

lemma zfill_wide: "width \<le> length s \<Longrightarrow> zfill width s = s"
  by (simp add: zfill_def)

lemma hexdigit_cases:
  assumes "c \<in> set hexdigits"
  shows "digit_of c < 16" and "hex_digit (digit_of c) = c"
  using assms by (auto simp: hexdigits_def digit_of_def hex_digit_def)

lemma hex_digits_unique:
  assumes "length s = length t"
    and "list_all (\<lambda>c. c \<in> set hexdigits) s" and "list_all (\<lambda>c. c \<in> set hexdigits) t"
    and "hex_value s = hex_value t"
  shows "s = t"
  using assms
proof (induction s t rule: rev_induct2)
  case 1
  show ?case by simp
next
  case (2 c s)
  then show ?case by simp
next
  case (3 d t)
  then show ?case by simp
next
  case (4 c s d t)
  from "4.prems" have l: "length s = length t"
    and c: "c \<in> set hexdigits" and d: "d \<in> set hexdigits"
    and s: "list_all (\<lambda>c. c \<in> set hexdigits) s" and t: "list_all (\<lambda>c. c \<in> set hexdigits) t"
    by simp_all
  from "4.prems"(4) have "16 * hex_value s + digit_of c = 16 * hex_value t + digit_of d"
    by (simp only: hex_value_snoc)
  with hexdigit_cases(1) [OF c] hexdigit_cases(1) [OF d]
  have v: "hex_value s = hex_value t" and e: "digit_of c = digit_of d"
    by arith+
  from e have "c = d"
    by (metis hexdigit_cases(2) c d)
  moreover have "s = t" using l s t v by (rule "4.IH")
  ultimately show ?case by simp
qed

lemma is_hex_field_unique: "is_hex_field k n s \<Longrightarrow> is_hex_field k n t \<Longrightarrow> s = t"
  by (rule hex_digits_unique) (simp_all add: is_hex_field_def)

lemma format_0x_field:
  assumes "0 \<le> w" and "nat w < 16 ^ Suc k"
  shows "is_hex_field (Suc k) (nat w) (format_0x (Suc k) w)"
  using assms zfill_hex_field [of "nat w" k] by (simp add: format_0x_def)

lemma format_0x_wide:
  assumes "0 \<le> w" and "16 ^ k \<le> nat w"
  shows "format_0x k w = hex_nat (nat w)" and "k < length (format_0x k w)"
proof -
  have l: "k < length (hex_nat (nat w))"
    using assms(2) by (rule length_hex_nat_gt)
  then show "format_0x k w = hex_nat (nat w)"
    using assms(1) by (simp add: format_0x_def zfill_wide)
  with l show "k < length (format_0x k w)" by simp
qed

lemma format_0x_negative: "w < 0 \<Longrightarrow> hd (format_0x k w) = CHR ''-''"
  by (simp add: format_0x_def)

lemma address_field:
  assumes "a < 0x7c00"
  shows "is_hex_field 4 a (format_0x 4 (int a))"
proof -
  have "nat (int a) < 16 ^ Suc 3" using assms by simp
  then have "is_hex_field (Suc 3) (nat (int a)) (format_0x (Suc 3) (int a))"
    by (intro format_0x_field) simp_all
  then show ?thesis by simp
qed

lemma word_field:
  assumes "0 \<le> w" and "w < 2 ^ 48"
  shows "is_hex_field 12 (nat w) (format_0x 12 w)"
proof -
  have "nat w < 2 ^ 48" using assms by (simp add: nat_less_iff)
  then have "nat w < 16 ^ Suc 11" by simp
  with assms(1) have "is_hex_field (Suc 11) (nat w) (format_0x (Suc 11) w)"
    by (rule format_0x_field)
  then show ?thesis by simp
qed

lemma word_field_wide:
  assumes "2 ^ 48 \<le> w"
  shows "format_0x 12 w = hex_nat (nat w)" and "12 < length (format_0x 12 w)"
proof -
  have 0: "0 \<le> w" using assms by (rule order_trans [rotated]) simp
  have "nat (2 ^ 48) \<le> nat w" using assms by (rule nat_mono)
  then have "16 ^ 12 \<le> nat w" by simp
  with 0 show "format_0x 12 w = hex_nat (nat w)" and "12 < length (format_0x 12 w)"
    by (rule format_0x_wide)+
qed

lemma data_line_address:
  assumes "a < 0x7c00"
  shows "hex_value (take 4 (drop 1 (data_line a w b m e))) = a"
  using address_field [OF assms] by (simp add: data_line_def is_hex_field_def)

section \<open>Trimming\<close>

lemma rev_dropWhile_takeWhile:
  "rev (dropWhile P (rev xs)) @ rev (takeWhile P (rev xs)) = xs"
proof -
  have "rev (dropWhile P (rev xs)) @ rev (takeWhile P (rev xs)) =
        rev (takeWhile P (rev xs) @ dropWhile P (rev xs))"
    by (simp only: rev_append)
  also have "\<dots> = rev (rev xs)" by (simp only: takeWhile_dropWhile_id)
  finally show ?thesis by simp
qed

lemma strip_decomposition:
  "\<exists>l r. s = l @ strip s @ r \<and> list_all isspace l \<and> list_all isspace r"
proof -
  let ?u = "dropWhile isspace s"
  have 1: "s = takeWhile isspace s @ ?u" by simp
  have 2: "?u = strip s @ rev (takeWhile isspace (rev ?u))"
    unfolding strip_def rstrip_def lstrip_def by (rule rev_dropWhile_takeWhile [symmetric])
  have 3: "list_all isspace (takeWhile isspace s)"
    and 4: "list_all isspace (rev (takeWhile isspace (rev ?u)))"
    by (auto simp: list_all_iff dest: set_takeWhileD)
  from 1 2 have "s = takeWhile isspace s @ strip s @ rev (takeWhile isspace (rev ?u))"
    by metis
  with 3 4 show ?thesis by blast
qed

lemma strip_ends:
  assumes "strip s \<noteq> []"
  shows "\<not> isspace (hd (strip s))" and "\<not> isspace (last (strip s))"
proof -
  let ?u = "dropWhile isspace s"
  let ?v = "dropWhile isspace (rev ?u)"
  have s: "strip s = rev ?v" by (simp add: strip_def rstrip_def lstrip_def)
  with assms have v: "?v \<noteq> []" by simp
  then have u: "?u \<noteq> []" by (metis dropWhile.simps(1) rev.simps(1))
  have "last (strip s) = hd ?v" using v by (simp add: s last_rev)
  moreover have "\<not> isspace (hd ?v)" using v by (rule hd_dropWhile)
  ultimately show "\<not> isspace (last (strip s))" by simp
  have "rev ?u = takeWhile isspace (rev ?u) @ ?v" by simp
  then have "last (rev ?u) = last ?v" using v by (metis last_appendR)
  then have "hd (strip s) = hd ?u" using u v by (simp add: s hd_rev last_rev)
  moreover have "\<not> isspace (hd ?u)" using u by (rule hd_dropWhile)
  ultimately show "\<not> isspace (hd (strip s))" by simp
qed

section \<open>The address sequence\<close>

lemma set_trace: "set trace = {a. a < 0x7c00 \<and> a mod 4 \<noteq> 3}"
  by (auto simp: trace_def)

lemma sorted_trace: "sorted_wrt (<) trace"
  unfolding trace_def by (rule sorted_wrt_filter) (simp add: sorted_wrt_upt)

lemma distinct_trace: "distinct trace"
  by (simp add: trace_def)

lemma hd_trace: "hd trace = 0"
proof -
  have "[0..<0x7c00] = 0 # [Suc 0..<0x7c00]"
    by (rule upt_conv_Cons) simp
  then show ?thesis by (simp add: trace_def)
qed

lemma last_trace: "last trace = 0x7bfe"
proof -
  have "[0..<0x7c00] = [0..<0x7bfe] @ [0x7bfe, 0x7bff]"
  proof -
    have "[0..<Suc (Suc 0x7bfe)] = [0..<0x7bfe] @ [0x7bfe, Suc 0x7bfe]"
      by (simp only: upt_Suc_append le0 if_True append_assoc append_Cons append_Nil)
    then show ?thesis by simp
  qed
  then show ?thesis by (simp add: trace_def)
qed

lemma quad_upt: "[4 * n..<4 * n + 4] = [4 * n, 4 * n + 1, 4 * n + 2, 4 * n + 3]"
  by (simp add: upt_rec [of "4 * n"] upt_rec [of "Suc (4 * n)"]
      upt_rec [of "Suc (Suc (4 * n))"] upt_rec [of "Suc (Suc (Suc (4 * n)))"])

lemma length_filter_quads: "length (filter (\<lambda>x. x mod 4 \<noteq> 3) [0..<4 * n]) = 3 * n"
proof (induction n)
  case 0
  show ?case by simp
next
  case (Suc n)
  have "4 * Suc n = 4 * n + 4" by simp
  moreover have "[0..<4 * n + 4] = [0..<4 * n] @ [4 * n..<4 * n + 4]"
    by (rule upt_add_eq_append) simp
  ultimately have "[0..<4 * Suc n] = [0..<4 * n] @ [4 * n, 4 * n + 1, 4 * n + 2, 4 * n + 3]"
    by (simp only: quad_upt)
  moreover have "(4 * n + 1) mod 4 = 1" "(4 * n + 2) mod 4 = 2" "(4 * n + 3) mod 4 = 3"
    by presburger+
  ultimately show ?case using Suc.IH by simp
qed

lemma length_trace: "length trace = 0x5d00"
proof -
  have "length (filter (\<lambda>x. x mod 4 \<noteq> 3) [0..<4 * 0x1f00]) = 3 * 0x1f00"
    by (rule length_filter_quads)
  then show ?thesis by (simp add: trace_def)
qed

lemma quad_base: "a div 4 * 4 = base a"
  by (simp add: base_def minus_mod_eq_div_mult)

lemma base_idem: "base (base a) = base a"
  by (simp add: base_def minus_mod_eq_div_mult)

lemma base_le: "base a \<le> a"
  by (simp add: base_def)

lemma base_in_trace: "a \<in> set trace \<Longrightarrow> base a \<in> set trace"
proof -
  assume "a \<in> set trace"
  then have "a < 0x7c00" by (simp add: set_trace)
  moreover have "base a \<le> a" by (rule base_le)
  moreover have "base a mod 4 = 0" by (simp add: base_def minus_mod_eq_div_mult)
  ultimately show ?thesis by (simp add: set_trace)
qed

section \<open>The loop\<close>

lemma for_loop_entries:
  "fst (for_loop body xs) = map (\<lambda>a. (a, fst (body a))) (map fst (fst (for_loop body xs)))"
  by (induction xs) (auto split: prod.splits option.splits)

lemma for_loop_prefix: "\<exists>rest. xs = map fst (fst (for_loop body xs)) @ rest"
  by (induction xs) (auto split: prod.splits option.splits)

lemma for_loop_error:
  "snd (for_loop body xs) = Some err \<Longrightarrow> \<exists>a \<in> set xs. snd (body a) = Some err"
  by (induction xs) (auto split: prod.splits option.splits)

lemma for_loop_complete:
  "\<forall>a \<in> set xs. snd (body a) = None \<Longrightarrow>
   for_loop body xs = (map (\<lambda>a. (a, fst (body a))) xs, None)"
  by (induction xs) (auto split: prod.splits option.splits)

lemma for_loop_first:
  "fst (for_loop body (x # xs)) \<noteq> [] \<and> hd (fst (for_loop body (x # xs))) = (x, fst (body x))"
  by (auto split: prod.splits option.splits)

lemma filter_key_distinct:
  "distinct xs \<Longrightarrow> a \<in> set xs \<Longrightarrow>
   concat (map snd (filter (\<lambda>it. fst it = a) (map (\<lambda>a. (a, f a)) xs))) = f a"
  by (induction xs) (auto simp: filter_empty_conv)

lemma filter_key_absent:
  "a \<notin> set (map fst its) \<Longrightarrow> concat (map snd (filter (\<lambda>it. fst it = a) its)) = []"
  by (induction its) auto

lemma concat_if_singleton:
  "concat (map (\<lambda>a. if Q a then [x] else []) xs) = map (\<lambda>_. x) (filter Q xs)"
  by (induction xs) simp_all

section \<open>One iteration\<close>

lemma visit_ok:
  assumes "a < 0x7c00" and "a < length ucode" and "base a < length seqwords"
  shows "visit U g ucode seqwords labels a =
    ((if a mod 4 = 0 \<and> a > 0 then [Print_blank] else []) @
     [Call_uop_disassemble g (ucode ! a) a,
      Call_process_seqword g a (ucode ! a) (seqwords ! base a) True,
      Call_process_seqword g a (ucode ! a) (seqwords ! base a) False] @
     (case labels a of None \<Rightarrow> [] | Some name \<Rightarrow> [Print_label (name @ '':'')]) @
     [Print_data
        (data_line a (ucode ! a)
           (before_annotation (process_seqword U g a (ucode ! a) (seqwords ! base a) True))
           (strip (uop_disassemble U g (ucode ! a) a))
           (strip (process_seqword U g a (ucode ! a) (seqwords ! base a) False)))],
     None)"
  using assms by (simp add: visit_def quad_base Let_def)

lemma visit_cases:
  assumes "a < 0x7c00"
  shows "(a < length ucode \<and> base a < length seqwords) \<or>
         visit U g ucode seqwords labels a =
           (if a mod 4 = 0 \<and> a > 0 then [Print_blank] else [], Some IndexError)"
  using assms by (simp add: visit_def quad_base Let_def)

lemma visit_passes_assert:
  "a < 0x7c00 \<Longrightarrow> snd (visit U g ucode seqwords labels a) \<noteq> Some AssertionError"
  by (simp add: visit_def Let_def)

lemma visit_blank:
  assumes "a < 0x7c00"
  shows "filter (\<lambda>e. e = Print_blank) (fst (visit U g ucode seqwords labels a)) =
           (if a mod 4 = 0 \<and> a > 0 then [Print_blank] else [])"
    and "a mod 4 = 0 \<and> a > 0 \<Longrightarrow> take 1 (fst (visit U g ucode seqwords labels a)) = [Print_blank]"
  using assms by (auto simp: visit_def Let_def split: option.splits)

lemma visit_event:
  assumes "e \<in> set (fst (visit U g ucode seqwords labels a))"
  shows "\<not> is_assign e" and "\<not> is_load e" and "is_decode e \<Longrightarrow> global_seen e = Some g"
  using assms by (auto simp: visit_def Let_def split: if_splits option.splits)

section \<open>The whole run\<close>

lemma main_loaded:
  assumes "stores_loaded U cpuid ucode seqwords labels"
  shows "main U cpuid =
    \<lparr>prologue =
       [Assign_cpuid cpuid,
        Call_load_ms_array_str_data cpuid (path_join U [''.'', cpuid, ''ms_array0.txt'']),
        Call_load_ms_array_str_data cpuid (path_join U [''.'', cpuid, ''ms_array1.txt'']),
        Call_load_labels cpuid (path_join U [''.'', ''labels.csv''])],
     iterations = fst (for_loop (visit U cpuid ucode seqwords labels) trace),
     outcome = snd (for_loop (visit U cpuid ucode seqwords labels) trace)\<rparr>"
  using assms by (simp add: main_def stores_loaded_def Let_def split: prod.splits)

lemma stores_loaded_unique:
  assumes "stores_loaded U cpuid ucode seqwords labels"
    and "stores_loaded U cpuid ucode' seqwords' labels'"
  shows "ucode' = ucode" and "seqwords' = seqwords" and "labels' = labels"
  using assms by (simp_all add: stores_loaded_def)

lemma main_cases:
  "(iterations (main U cpuid) = [] \<and> (\<exists>m. outcome (main U cpuid) = Some (Raised m))) \<or>
   (\<exists>ucode seqwords labels. stores_loaded U cpuid ucode seqwords labels)"
  by (auto simp: main_def stores_loaded_def Let_def split: sum.splits prod.splits)

lemma main_prologue:
  "\<exists>rest. prologue (main U cpuid) = Assign_cpuid cpuid # rest \<and>
          list_all (\<lambda>e. is_load e \<and> global_seen e = Some cpuid) rest"
  by (auto simp: main_def Let_def split: sum.splits prod.splits)

lemma prologue_prints_nothing:
  "stdout_lines (prologue (main U cpuid)) = []"
  by (auto simp: main_def stdout_lines_def Let_def split: sum.splits prod.splits)

lemma prologue_event:
  "e \<in> set (prologue (main U cpuid)) \<Longrightarrow> is_assign e \<or> is_load e"
  by (auto simp: main_def Let_def split: sum.splits prod.splits)

lemma visited_prefix: "\<exists>rest. trace = visited (main U cpuid) @ rest"
proof -
  consider "iterations (main U cpuid) = []"
    | ucode seqwords labels where "stores_loaded U cpuid ucode seqwords labels"
    using main_cases [of U cpuid] by blast
  then show ?thesis
  proof cases
    case 1
    then show ?thesis by (simp add: visited_def)
  next
    case 2
    then show ?thesis
      using for_loop_prefix [of trace "visit U cpuid ucode seqwords labels"]
      by (simp add: main_loaded visited_def)
  qed
qed

lemma visited_in_trace: "a \<in> set (visited (main U cpuid)) \<Longrightarrow> a \<in> set trace"
proof -
  assume a: "a \<in> set (visited (main U cpuid))"
  obtain rest where "trace = visited (main U cpuid) @ rest"
    using visited_prefix [of U cpuid] by blast
  then have "set trace = set (visited (main U cpuid)) \<union> set rest"
    by (metis set_append)
  with a show ?thesis by blast
qed

lemma distinct_visited: "distinct (visited (main U cpuid))"
  using visited_prefix [of U cpuid] distinct_trace by (metis distinct_append)

lemma sorted_visited: "sorted_wrt (<) (visited (main U cpuid))"
  using visited_prefix [of U cpuid] sorted_trace by (metis sorted_wrt_append)

lemma visited_downward:
  assumes "a \<in> set (visited (main U cpuid))" and "b \<in> set trace" and "b \<le> a"
  shows "b \<in> set (visited (main U cpuid))"
proof -
  obtain rest where t: "trace = visited (main U cpuid) @ rest"
    using visited_prefix [of U cpuid] by blast
  have "sorted_wrt (<) (visited (main U cpuid) @ rest)"
    using sorted_trace by (simp only: t)
  then have "\<forall>x \<in> set (visited (main U cpuid)). \<forall>y \<in> set rest. x < y"
    by (simp add: sorted_wrt_append)
  with assms(1,3) have "b \<notin> set rest" by force
  moreover have "b \<in> set (visited (main U cpuid)) \<union> set rest"
    using assms(2) t by (metis set_append)
  ultimately show ?thesis by blast
qed

lemma emitted_unvisited: "a \<notin> set (visited r) \<Longrightarrow> emitted_for r a = []"
  unfolding emitted_for_def visited_def by (rule filter_key_absent)

lemma emitted_visited:
  assumes "stores_loaded U cpuid ucode seqwords labels"
    and "a \<in> set (visited (main U cpuid))"
  shows "emitted_for (main U cpuid) a = fst (visit U cpuid ucode seqwords labels a)"
proof -
  let ?body = "visit U cpuid ucode seqwords labels"
  let ?its = "fst (for_loop ?body trace)"
  have its: "iterations (main U cpuid) = ?its"
    by (simp add: main_loaded [OF assms(1)])
  have shape: "?its = map (\<lambda>a. (a, fst (?body a))) (map fst ?its)"
    by (rule for_loop_entries)
  have d: "distinct (map fst ?its)"
    using distinct_visited [of U cpuid] by (simp add: visited_def its)
  have m: "a \<in> set (map fst ?its)"
    using assms(2) by (simp add: visited_def its)
  have "concat (map snd (filter (\<lambda>it. fst it = a)
          (map (\<lambda>a. (a, fst (?body a))) (map fst ?its)))) = fst (?body a)"
    by (rule filter_key_distinct [OF d m])
  with shape show ?thesis
    by (simp add: emitted_for_def its)
qed

lemma emitted_in_events: "set (emitted_for r a) \<subseteq> set (events r)"
  by (auto simp: emitted_for_def events_def)

lemma main_complete:
  assumes "stores_loaded U cpuid ucode seqwords labels"
    and "0x7bfe < length ucode" and "0x7bfc < length seqwords"
  shows "iterations (main U cpuid) =
           map (\<lambda>a. (a, fst (visit U cpuid ucode seqwords labels a))) trace"
    and "outcome (main U cpuid) = None"
    and "visited (main U cpuid) = trace"
proof -
  let ?body = "visit U cpuid ucode seqwords labels"
  have "\<forall>a \<in> set trace. snd (?body a) = None"
  proof
    fix a assume "a \<in> set trace"
    then have a: "a < 0x7c00" "a mod 4 \<noteq> 3" by (simp_all add: set_trace)
    then have "a \<le> 0x7bfe" by presburger
    moreover have "base a \<le> 0x7bfc" using a by (simp add: base_def) presburger
    ultimately show "snd (?body a) = None"
      using assms(2,3) a(1) by (simp add: visit_ok)
  qed
  then have "for_loop ?body trace = (map (\<lambda>a. (a, fst (?body a))) trace, None)"
    by (rule for_loop_complete)
  then show "iterations (main U cpuid) = map (\<lambda>a. (a, fst (?body a))) trace"
    and "outcome (main U cpuid) = None"
    and "visited (main U cpuid) = trace"
    by (simp_all add: main_loaded [OF assms(1)] visited_def comp_def)
qed

lemma iteration_entry:
  assumes "stores_loaded U cpuid ucode seqwords labels"
    and "(a, es) \<in> set (iterations (main U cpuid))"
  shows "a \<in> set (visited (main U cpuid))"
    and "es = fst (visit U cpuid ucode seqwords labels a)"
proof -
  let ?body = "visit U cpuid ucode seqwords labels"
  let ?its = "fst (for_loop ?body trace)"
  have its: "iterations (main U cpuid) = ?its"
    by (simp add: main_loaded [OF assms(1)])
  show "a \<in> set (visited (main U cpuid))"
    using assms(2) by (force simp: visited_def)
  have "(a, es) \<in> set (map (\<lambda>a. (a, fst (?body a))) (map fst ?its))"
    using assms(2) for_loop_entries [of ?body trace] by (simp only: its)
  then show "es = fst (?body a)" by auto
qed

lemma iteration_event:
  assumes "e \<in> set (concat (map snd (iterations (main U cpuid))))"
  shows "\<not> is_assign e \<and> \<not> is_load e \<and> (is_decode e \<longrightarrow> global_seen e = Some cpuid)"
proof -
  from assms obtain a es where it: "(a, es) \<in> set (iterations (main U cpuid))" and e: "e \<in> set es"
    by auto
  then have "iterations (main U cpuid) \<noteq> []" by auto
  then obtain ucode seqwords labels where l: "stores_loaded U cpuid ucode seqwords labels"
    using main_cases [of U cpuid] by blast
  have "e \<in> set (fst (visit U cpuid ucode seqwords labels a))"
    using iteration_entry(2) [OF l it] e by simp
  then show ?thesis
    using visit_event [of e U cpuid ucode seqwords labels a] by blast
qed

lemma event_origin:
  assumes "e \<in> set (events (main U cpuid))" and "\<not> is_assign e" and "\<not> is_load e"
  shows "\<exists>a ucode seqwords labels.
           stores_loaded U cpuid ucode seqwords labels \<and>
           a \<in> set (visited (main U cpuid)) \<and> a < 0x7c00 \<and>
           e \<in> set (fst (visit U cpuid ucode seqwords labels a))"
proof -
  from assms have "e \<notin> set (prologue (main U cpuid))"
    using prologue_event by blast
  with assms(1) obtain a es where it: "(a, es) \<in> set (iterations (main U cpuid))" and e: "e \<in> set es"
    by (auto simp: events_def)
  then have "iterations (main U cpuid) \<noteq> []" by auto
  then obtain ucode seqwords labels where l: "stores_loaded U cpuid ucode seqwords labels"
    using main_cases [of U cpuid] by blast
  from iteration_entry [OF l it] e
  have v: "a \<in> set (visited (main U cpuid))"
    and "e \<in> set (fst (visit U cpuid ucode seqwords labels a))" by simp_all
  moreover have "a < 0x7c00"
    using visited_in_trace [OF v] by (simp add: set_trace)
  ultimately show ?thesis using l by blast
qed

lemma events_by_address:
  "events (main U cpuid) =
   prologue (main U cpuid) @
   concat (map (emitted_for (main U cpuid)) (visited (main U cpuid)))"
proof -
  consider "iterations (main U cpuid) = []"
    | ucode seqwords labels where "stores_loaded U cpuid ucode seqwords labels"
    using main_cases [of U cpuid] by blast
  then show ?thesis
  proof cases
    case 1
    then show ?thesis by (simp add: events_def visited_def)
  next
    case 2
    let ?f = "\<lambda>a. fst (visit U cpuid ucode seqwords labels a)"
    let ?vs = "visited (main U cpuid)"
    have "iterations (main U cpuid) = fst (for_loop (visit U cpuid ucode seqwords labels) trace)"
      by (simp add: main_loaded [OF 2])
    then have "iterations (main U cpuid) = map (\<lambda>a. (a, ?f a)) ?vs"
      using for_loop_entries [of "visit U cpuid ucode seqwords labels" trace]
      by (simp add: visited_def)
    then have "map snd (iterations (main U cpuid)) = map ?f ?vs"
      by (simp add: comp_def)
    also have "\<dots> = map (emitted_for (main U cpuid)) ?vs"
      by (rule map_cong) (simp_all add: emitted_visited [OF 2])
    finally show ?thesis by (simp add: events_def)
  qed
qed

section \<open>The actions at a visited address\<close>

lemma emitted_ok:
  assumes "stores_loaded U cpuid ucode seqwords labels"
    and "a \<in> set (visited (main U cpuid))"
    and "a < length ucode" and "base a < length seqwords"
  shows "emitted_for (main U cpuid) a =
    (if a mod 4 = 0 \<and> a > 0 then [Print_blank] else []) @
    [Call_uop_disassemble cpuid (ucode ! a) a,
     Call_process_seqword cpuid a (ucode ! a) (seqwords ! base a) True,
     Call_process_seqword cpuid a (ucode ! a) (seqwords ! base a) False] @
    (case labels a of None \<Rightarrow> [] | Some name \<Rightarrow> [Print_label (name @ '':'')]) @
    [Print_data
       (data_line a (ucode ! a)
          (before_annotation (process_seqword U cpuid a (ucode ! a) (seqwords ! base a) True))
          (strip (uop_disassemble U cpuid (ucode ! a) a))
          (strip (process_seqword U cpuid a (ucode ! a) (seqwords ! base a) False)))]"
proof -
  have "a < 0x7c00"
    using visited_in_trace [OF assms(2)] by (simp add: set_trace)
  then show ?thesis
    using assms(3,4) by (simp only: emitted_visited [OF assms(1,2)] visit_ok fst_conv)
qed

lemma emitted_data:
  assumes "stores_loaded U cpuid ucode seqwords labels"
    and "a \<in> set (visited (main U cpuid))"
    and "a < length ucode" and "base a < length seqwords"
  shows "filter is_data (emitted_for (main U cpuid) a) =
    [Print_data
       (data_line a (ucode ! a)
          (before_annotation (process_seqword U cpuid a (ucode ! a) (seqwords ! base a) True))
          (strip (uop_disassemble U cpuid (ucode ! a) a))
          (strip (process_seqword U cpuid a (ucode ! a) (seqwords ! base a) False)))]"
  by (cases "labels a") (simp_all add: emitted_ok [OF assms])

lemma emitted_blank:
  assumes "a \<in> set (visited (main U cpuid))"
  shows "filter (\<lambda>e. e = Print_blank) (emitted_for (main U cpuid) a) =
           (if a mod 4 = 0 \<and> a > 0 then [Print_blank] else [])"
    and "a mod 4 = 0 \<and> a > 0 \<Longrightarrow> take 1 (emitted_for (main U cpuid) a) = [Print_blank]"
proof -
  from assms have "iterations (main U cpuid) \<noteq> []" by (auto simp: visited_def)
  then obtain ucode seqwords labels where l: "stores_loaded U cpuid ucode seqwords labels"
    using main_cases [of U cpuid] by blast
  have a: "a < 0x7c00"
    using visited_in_trace [OF assms] by (simp add: set_trace)
  show "filter (\<lambda>e. e = Print_blank) (emitted_for (main U cpuid) a) =
           (if a mod 4 = 0 \<and> a > 0 then [Print_blank] else [])"
    by (simp only: emitted_visited [OF l assms] visit_blank(1) [OF a])
  show "a mod 4 = 0 \<and> a > 0 \<Longrightarrow> take 1 (emitted_for (main U cpuid) a) = [Print_blank]"
    by (simp only: emitted_visited [OF l assms] visit_blank(2) [OF a])
qed

lemma blank_lines_of_run:
  "filter (\<lambda>e. e = Print_blank) (events (main U cpuid)) =
   map (\<lambda>_. Print_blank) (filter (\<lambda>a. a mod 4 = 0 \<and> a > 0) (visited (main U cpuid)))"
proof -
  let ?R = "main U cpuid"
  let ?P = "\<lambda>e. e = Print_blank"
  have p: "filter ?P (prologue ?R) = []"
    using prologue_event [of Print_blank U cpuid] by (auto simp: filter_empty_conv)
  have "map (\<lambda>a. filter ?P (emitted_for ?R a)) (visited ?R) =
        map (\<lambda>a. if a mod 4 = 0 \<and> a > 0 then [Print_blank] else []) (visited ?R)"
    by (rule map_cong) (simp_all only: emitted_blank(1))
  then have "concat (map (\<lambda>a. filter ?P (emitted_for ?R a)) (visited ?R)) =
        concat (map (\<lambda>a. if a mod 4 = 0 \<and> a > 0 then [Print_blank] else []) (visited ?R))"
    by (rule arg_cong)
  moreover have "filter ?P (concat (map (emitted_for ?R) (visited ?R))) =
        concat (map (\<lambda>a. filter ?P (emitted_for ?R a)) (visited ?R))"
    by (simp add: filter_concat comp_def)
  ultimately have "filter ?P (concat (map (emitted_for ?R) (visited ?R))) =
        map (\<lambda>_. Print_blank) (filter (\<lambda>a. a mod 4 = 0 \<and> a > 0) (visited ?R))"
    by (simp only: concat_if_singleton)
  then show ?thesis
    by (simp add: events_by_address p)
qed

lemma data_event_address:
  assumes "Print_data l \<in> set (events (main U cpuid))"
  shows "hex_value (take 4 (drop 1 l)) \<in> set (visited (main U cpuid))"
proof -
  obtain a ucode seqwords labels where a: "a \<in> set (visited (main U cpuid))" "a < 0x7c00"
    and e: "Print_data l \<in> set (fst (visit U cpuid ucode seqwords labels a))"
    using event_origin [OF assms] by auto
  have "a < length ucode \<and> base a < length seqwords"
    using visit_cases [OF a(2), of ucode seqwords U cpuid labels] e by (auto split: if_splits)
  then have "\<exists>w b m x. l = data_line a w b m x"
    using e a(2) by (auto simp: visit_ok split: if_splits option.splits)
  then show ?thesis
    using a data_line_address by auto
qed

lemma label_event_origin:
  assumes "stores_loaded U cpuid ucode seqwords labels"
    and "Print_label l \<in> set (events (main U cpuid))"
  shows "\<exists>b name. b \<in> set (visited (main U cpuid)) \<and> labels b = Some name \<and> l = name @ '':''"
proof -
  obtain b ucode' seqwords' labels' where l': "stores_loaded U cpuid ucode' seqwords' labels'"
    and b: "b \<in> set (visited (main U cpuid))" "b < 0x7c00"
    and e: "Print_label l \<in> set (fst (visit U cpuid ucode' seqwords' labels' b))"
    using event_origin [OF assms(2)] by auto
  have eq: "ucode' = ucode" "seqwords' = seqwords" "labels' = labels"
    using stores_loaded_unique [OF assms(1) l'] by simp_all
  have "b < length ucode \<and> base b < length seqwords"
    using visit_cases [OF b(2), of ucode seqwords U cpuid labels] e
    by (auto simp: eq split: if_splits)
  then have "\<exists>name. labels b = Some name \<and> l = name @ '':''"
    using e b(2) by (auto simp: eq visit_ok split: if_splits option.splits)
  with b(1) show ?thesis by blast
qed

section \<open>The concrete run\<close>

lemma scenario_loaded:
  "stores_loaded scenario_uasm cpuid scenario_ucode scenario_seqwords scenario_labels"
  by (simp add: stores_loaded_def scenario_uasm_def)

lemma scenario_lengths: "length scenario_ucode = 0x7c00" "length scenario_seqwords = 0x7c00"
  by (simp_all add: scenario_ucode_def scenario_seqwords_def)

lemma scenario_words:
  "a < 0x7c00 \<Longrightarrow> scenario_ucode ! a = (if a = 9 then 0x1000000000000 else int a + 1)"
  "a < 0x7c00 \<Longrightarrow> scenario_seqwords ! a = (if a < 4 then 0xA else 0xB)"
  by (simp_all add: scenario_ucode_def scenario_seqwords_def)

lemma scenario_complete:
  "visited (main scenario_uasm cpuid) = trace"
  "outcome (main scenario_uasm cpuid) = None"
  using main_complete [OF scenario_loaded, of cpuid] by (simp_all add: scenario_lengths)

lemma scenario_emitted:
  assumes "a \<in> set trace"
  shows "emitted_for (main scenario_uasm cpuid) a =
         fst (visit scenario_uasm cpuid scenario_ucode scenario_seqwords scenario_labels a)"
  using assms by (intro emitted_visited scenario_loaded) (simp add: scenario_complete)

lemma strip_examples: "strip '' OP '' = ''OP''" "strip '' SEQW '' = ''SEQW''" "strip [] = []"
  by (simp_all add: strip_def lstrip_def rstrip_def isspace_def)

lemma replicate_examples:
  "replicate 3 c = [c, c, c]" "replicate 11 c = [c, c, c, c, c, c, c, c, c, c, c]"
  by (simp_all add: eval_nat_numeral)

lemma hex_examples:
  "format_0x 4 4 = ''0004''" "format_0x 4 5 = ''0005''" "format_0x 4 9 = ''0009''"
  "format_0x 12 5 = ''000000000005''" "format_0x 12 6 = ''000000000006''"
  "format_0x 12 0x1000000000000 = ''1000000000000''"
  by (simp_all add: format_0x_def zfill_def hex_nat.simps hex_digit_def hexdigits_def
      replicate_examples)

lemma hex_value_examples:
  "hex_value ''0004'' = 4" "hex_value ''0005'' = 5"
  by (simp_all add: hex_value_def digit_of_def hexdigits_def)

lemma scenario_at_4:
  "emitted_for (main scenario_uasm cpuid) 4 =
     [Print_blank,
      Call_uop_disassemble cpuid 5 4,
      Call_process_seqword cpuid 4 5 0xB True,
      Call_process_seqword cpuid 4 5 0xB False,
      Print_label ''L4:'',
      Print_data ''U0004: 000000000005 OP '']"
proof -
  have "emitted_for (main scenario_uasm cpuid) 4 =
        fst (visit scenario_uasm cpuid scenario_ucode scenario_seqwords scenario_labels 4)"
    by (rule scenario_emitted) (simp add: set_trace)
  then show ?thesis
    by (simp add: visit_ok scenario_lengths scenario_words base_def
        scenario_uasm_def scenario_labels_def data_line_def before_annotation_def
        strip_examples hex_examples)
qed

lemma scenario_at_5:
  "emitted_for (main scenario_uasm cpuid) 5 =
     [Call_uop_disassemble cpuid 6 5,
      Call_process_seqword cpuid 5 6 0xB True,
      Call_process_seqword cpuid 5 6 0xB False,
      Print_data ''U0005: 000000000006 SEQW OP '']"
proof -
  have "emitted_for (main scenario_uasm cpuid) 5 =
        fst (visit scenario_uasm cpuid scenario_ucode scenario_seqwords scenario_labels 5)"
    by (rule scenario_emitted) (simp add: set_trace)
  then show ?thesis
    by (simp add: visit_ok scenario_lengths scenario_words base_def
        scenario_uasm_def scenario_labels_def data_line_def before_annotation_def
        strip_examples hex_examples)
qed

lemma scenario_at_9:
  "emitted_for (main scenario_uasm cpuid) 9 =
     [Call_uop_disassemble cpuid 0x1000000000000 9,
      Call_process_seqword cpuid 9 0x1000000000000 0xB True,
      Call_process_seqword cpuid 9 0x1000000000000 0xB False,
      Print_data ''U0009: 1000000000000 OP '']"
proof -
  have "emitted_for (main scenario_uasm cpuid) 9 =
        fst (visit scenario_uasm cpuid scenario_ucode scenario_seqwords scenario_labels 9)"
    by (rule scenario_emitted) (simp add: set_trace)
  then show ?thesis
    by (simp add: visit_ok scenario_lengths scenario_words base_def
        scenario_uasm_def scenario_labels_def data_line_def before_annotation_def
        strip_examples hex_examples)
qed

section \<open>The claims\<close>

text \<open>
  Claim C1. An address \<open>a\<close> with \<open>a mod 4 = 3\<close> is not among the addresses the driver
  iterates over, no run visits it, and nothing at all (no separator, no label line, no
  data line, no call) is done for it. Moreover the address field of every data line that
  a run prints reads as a visited address, hence never as \<open>a\<close>.
\<close>

theorem fourth_slot_never_visited:
  assumes "a mod 4 = 3"
  shows "a \<notin> set trace \<and>
         a \<notin> set (visited (main U cpuid)) \<and>
         emitted_for (main U cpuid) a = [] \<and>
         (\<forall>l. Print_data l \<in> set (events (main U cpuid)) \<longrightarrow> hex_value (take 4 (drop 1 l)) \<noteq> a)"
proof -
  have t: "a \<notin> set trace"
    using assms by (simp add: set_trace)
  then have v: "a \<notin> set (visited (main U cpuid))"
    using visited_in_trace by blast
  then have "emitted_for (main U cpuid) a = []"
    by (rule emitted_unvisited)
  moreover have "\<forall>l. Print_data l \<in> set (events (main U cpuid)) \<longrightarrow>
                     hex_value (take 4 (drop 1 l)) \<noteq> a"
    using data_event_address v by blast
  ultimately show ?thesis using t v by blast
qed

theorem fourth_slot_never_visited_witness:
  "(3 :: nat) mod 4 = 3 \<and>
   3 \<notin> set trace \<and>
   3 \<notin> set (visited (main scenario_uasm ''0x000506CA'')) \<and>
   emitted_for (main scenario_uasm ''0x000506CA'') 3 = [] \<and>
   Print_data ''U0004: 000000000005 OP '' \<in> set (events (main scenario_uasm ''0x000506CA'')) \<and>
   hex_value (take 4 (drop 1 ''U0004: 000000000005 OP '')) \<noteq> 3"
proof -
  have "Print_data ''U0004: 000000000005 OP '' \<in> set (emitted_for (main scenario_uasm ''0x000506CA'') 4)"
    by (simp add: scenario_at_4)
  then have "Print_data ''U0004: 000000000005 OP '' \<in> set (events (main scenario_uasm ''0x000506CA''))"
    using emitted_in_events by blast
  then show ?thesis
    using fourth_slot_never_visited [of 3 scenario_uasm "''0x000506CA''"]
    by (simp add: hex_value_examples)
qed

text \<open>
  Claim C2. At a visited address \<open>a\<close> whose two lookups succeed, the decode calls of the
  iteration are the mnemonic call and then the before-phase and the after-phase call of
  \<^verbatim>\<open>process_seqword\<close>, both with the control word \<open>seqwords ! base a\<close>, where
  \<open>base a = a - a mod 4\<close> is the quad base. The quad base is visited too, and the
  control words used at \<open>a\<close> are those used at \<open>base a\<close>.
\<close>

theorem control_word_of_quad_base:
  assumes "stores_loaded U cpuid ucode seqwords labels"
    and "a \<in> set (visited (main U cpuid))"
    and "a < length ucode" and "base a < length seqwords"
  shows "filter is_decode (emitted_for (main U cpuid) a) =
           [Call_uop_disassemble cpuid (ucode ! a) a,
            Call_process_seqword cpuid a (ucode ! a) (seqwords ! (a - a mod 4)) True,
            Call_process_seqword cpuid a (ucode ! a) (seqwords ! (a - a mod 4)) False] \<and>
         control_words (emitted_for (main U cpuid) a) =
           [seqwords ! (a - a mod 4), seqwords ! (a - a mod 4)] \<and>
         base a = a - a mod 4 \<and>
         base a \<in> set (visited (main U cpuid)) \<and>
         control_words (emitted_for (main U cpuid) a) =
           control_words (emitted_for (main U cpuid) (base a))"
proof -
  have b: "base a \<in> set (visited (main U cpuid))"
    using assms(2) base_in_trace [OF visited_in_trace [OF assms(2)]] base_le
    by (rule visited_downward)
  have "base a < length ucode"
    using base_le [of a] assms(3) by simp
  moreover have "base (base a) < length seqwords"
    using assms(4) by (simp only: base_idem)
  ultimately have eb: "control_words (emitted_for (main U cpuid) (base a)) =
      [seqwords ! base a, seqwords ! base a]"
    by (cases "labels (base a)")
      (simp_all add: emitted_ok [OF assms(1) b] control_words_def base_idem)
  have ea: "control_words (emitted_for (main U cpuid) a) = [seqwords ! base a, seqwords ! base a]"
    by (cases "labels a") (simp_all add: emitted_ok [OF assms] control_words_def)
  have "filter is_decode (emitted_for (main U cpuid) a) =
           [Call_uop_disassemble cpuid (ucode ! a) a,
            Call_process_seqword cpuid a (ucode ! a) (seqwords ! base a) True,
            Call_process_seqword cpuid a (ucode ! a) (seqwords ! base a) False]"
    by (cases "labels a") (simp_all add: emitted_ok [OF assms])
  with ea eb b show ?thesis by (simp add: base_def)
qed

theorem control_word_of_quad_base_witness:
  "stores_loaded scenario_uasm ''0x000506CA'' scenario_ucode scenario_seqwords scenario_labels \<and>
   5 \<in> set (visited (main scenario_uasm ''0x000506CA'')) \<and>
   5 < length scenario_ucode \<and> base 5 < length scenario_seqwords \<and>
   control_words (emitted_for (main scenario_uasm ''0x000506CA'') 5) = [0xB, 0xB] \<and>
   control_words (emitted_for (main scenario_uasm ''0x000506CA'') 4) = [0xB, 0xB]"
proof -
  have v: "5 \<in> set (visited (main scenario_uasm ''0x000506CA''))"
    by (simp add: scenario_complete set_trace)
  have l: "5 < length scenario_ucode" "base 5 < length scenario_seqwords"
    by (simp_all add: scenario_lengths base_def)
  note t = control_word_of_quad_base [OF scenario_loaded v l]
  have b: "base 5 = 4" and w: "scenario_seqwords ! (5 - 5 mod 4) = 0xB"
    by (simp_all add: base_def scenario_words)
  from t have "control_words (emitted_for (main scenario_uasm ''0x000506CA'') 5) =
      [scenario_seqwords ! (5 - 5 mod 4), scenario_seqwords ! (5 - 5 mod 4)]"
    by blast
  then have 5: "control_words (emitted_for (main scenario_uasm ''0x000506CA'') 5) = [0xB, 0xB]"
    by (simp only: w)
  from t have "control_words (emitted_for (main scenario_uasm ''0x000506CA'') 5) =
      control_words (emitted_for (main scenario_uasm ''0x000506CA'') (base 5))"
    by blast
  then have "control_words (emitted_for (main scenario_uasm ''0x000506CA'') 4) = [0xB, 0xB]"
    using 5 by (simp only: b)
  with 5 v l show ?thesis
    by (simp add: scenario_loaded)
qed

text \<open>
  Claim C3. At a visited address \<open>a\<close> whose lookups succeed, with the word
  \<open>w = ucode ! a\<close>, the iteration prints exactly one data line: \<^verbatim>\<open>U\<close>, the address
  through the format \<^verbatim>\<open>04x\<close>, \<^verbatim>\<open>: \<close>, the word through the format \<^verbatim>\<open>012x\<close>, one space,
  the trimmed before-annotation (followed by one space unless it is empty), the trimmed
  mnemonic, one space, and the trimmed after-annotation. The address field is exactly 4
  lowercase hex digits reading as \<open>a\<close>, and the word field is exactly 12 lowercase hex
  digits reading as \<open>w\<close> whenever \<open>w\<close> is a 48-bit unsigned value, as every entry of
  the Word Store is.
\<close>

theorem data_line_format:
  assumes "stores_loaded U cpuid ucode seqwords labels"
    and "a \<in> set (visited (main U cpuid))"
    and "a < length ucode" and "base a < length seqwords"
  shows "filter is_data (emitted_for (main U cpuid) a) =
           [Print_data
              (''U'' @ format_0x 4 (int a) @ '': '' @ format_0x 12 (ucode ! a) @ '' '' @
               (if strip (process_seqword U cpuid a (ucode ! a) (seqwords ! base a) True) = [] then []
                else strip (process_seqword U cpuid a (ucode ! a) (seqwords ! base a) True) @ '' '') @
               strip (uop_disassemble U cpuid (ucode ! a) a) @ '' '' @
               strip (process_seqword U cpuid a (ucode ! a) (seqwords ! base a) False))] \<and>
         is_hex_field 4 a (format_0x 4 (int a)) \<and>
         (0 \<le> ucode ! a \<and> ucode ! a < 2 ^ 48 \<longrightarrow>
            is_hex_field 12 (nat (ucode ! a)) (format_0x 12 (ucode ! a)))"
proof -
  have "a < 0x7c00"
    using visited_in_trace [OF assms(2)] by (simp add: set_trace)
  then have "is_hex_field 4 a (format_0x 4 (int a))"
    by (rule address_field)
  moreover have "0 \<le> ucode ! a \<and> ucode ! a < 2 ^ 48 \<longrightarrow>
      is_hex_field 12 (nat (ucode ! a)) (format_0x 12 (ucode ! a))"
    using word_field by blast
  ultimately show ?thesis
    by (simp add: emitted_data [OF assms] data_line_def before_annotation_def)
qed

theorem data_line_format_witness:
  "stores_loaded scenario_uasm ''0x000506CA'' scenario_ucode scenario_seqwords scenario_labels \<and>
   5 \<in> set (visited (main scenario_uasm ''0x000506CA'')) \<and>
   5 < length scenario_ucode \<and> base 5 < length scenario_seqwords \<and>
   0 \<le> scenario_ucode ! 5 \<and> scenario_ucode ! 5 < 2 ^ 48 \<and>
   filter is_data (emitted_for (main scenario_uasm ''0x000506CA'') 5) =
     [Print_data ''U0005: 000000000006 SEQW OP ''] \<and>
   is_hex_field 4 5 ''0005'' \<and> is_hex_field 12 6 ''000000000006''"
proof -
  have v: "5 \<in> set (visited (main scenario_uasm ''0x000506CA''))"
    by (simp add: scenario_complete set_trace)
  have l: "5 < length scenario_ucode" "base 5 < length scenario_seqwords"
    by (simp_all add: scenario_lengths base_def)
  have w: "0 \<le> scenario_ucode ! 5" "scenario_ucode ! 5 < 2 ^ 48"
    by (simp_all add: scenario_words)
  have u: "scenario_ucode ! 5 = 6" by (simp add: scenario_words)
  have "uop_disassemble scenario_uasm = (\<lambda>g uop uaddr. '' OP '')"
    and "process_seqword scenario_uasm =
      (\<lambda>g uaddr uop seqword before. if before \<and> uaddr = 5 then '' SEQW '' else [])"
    by (simp_all add: scenario_uasm_def)
  with data_line_format [OF scenario_loaded v l] v l w show ?thesis
    by (simp add: scenario_loaded u strip_examples hex_examples)
qed

text \<open>
  Claim C4. In the iteration of a visited address \<open>a\<close> a blank separator line is printed
  if and only if \<open>a mod 4 = 0\<close> and \<open>a > 0\<close>; it is then printed once, and it is the
  first action of the iteration, before the lookups, the label line and the data line.
  Over the whole run the blank lines are one for each visited address that starts a quad
  other than quad 0, and no others.
\<close>

theorem blank_line_before_quad:
  assumes "a \<in> set (visited (main U cpuid))"
  shows "(Print_blank \<in> set (emitted_for (main U cpuid) a) \<longleftrightarrow> a mod 4 = 0 \<and> a > 0) \<and>
         length (filter (\<lambda>e. e = Print_blank) (emitted_for (main U cpuid) a)) =
           (if a mod 4 = 0 \<and> a > 0 then 1 else 0) \<and>
         (a mod 4 = 0 \<and> a > 0 \<longrightarrow> take 1 (emitted_for (main U cpuid) a) = [Print_blank]) \<and>
         filter (\<lambda>e. e = Print_blank) (events (main U cpuid)) =
           map (\<lambda>_. Print_blank) (filter (\<lambda>a. a mod 4 = 0 \<and> a > 0) (visited (main U cpuid)))"
proof -
  let ?es = "emitted_for (main U cpuid) a"
  have f: "filter (\<lambda>e. e = Print_blank) ?es = (if a mod 4 = 0 \<and> a > 0 then [Print_blank] else [])"
    by (rule emitted_blank(1) [OF assms])
  have "Print_blank \<in> set ?es \<longleftrightarrow> Print_blank \<in> set (filter (\<lambda>e. e = Print_blank) ?es)"
    by simp
  also have "\<dots> \<longleftrightarrow> a mod 4 = 0 \<and> a > 0"
    by (simp only: f) simp
  finally have "Print_blank \<in> set ?es \<longleftrightarrow> a mod 4 = 0 \<and> a > 0" .
  moreover have "length (filter (\<lambda>e. e = Print_blank) ?es) = (if a mod 4 = 0 \<and> a > 0 then 1 else 0)"
    by (simp only: f) simp
  ultimately show ?thesis
    using emitted_blank(2) [OF assms] blank_lines_of_run [of U cpuid] by blast
qed

theorem blank_line_before_quad_witness:
  "4 \<in> set (visited (main scenario_uasm ''0x000506CA'')) \<and>
   Print_blank \<in> set (emitted_for (main scenario_uasm ''0x000506CA'') 4) \<and>
   (4 :: nat) mod 4 = 0 \<and> (4 :: nat) > 0 \<and>
   take 1 (emitted_for (main scenario_uasm ''0x000506CA'') 4) = [Print_blank] \<and>
   5 \<in> set (visited (main scenario_uasm ''0x000506CA'')) \<and>
   Print_blank \<notin> set (emitted_for (main scenario_uasm ''0x000506CA'') 5)"
proof -
  have v: "4 \<in> set (visited (main scenario_uasm ''0x000506CA''))"
    "5 \<in> set (visited (main scenario_uasm ''0x000506CA''))"
    by (simp_all add: scenario_complete set_trace)
  show ?thesis
    using blank_line_before_quad [OF v(1)] blank_line_before_quad [OF v(2)] v
    by simp
qed

text \<open>
  Claim C5. At a visited address whose lookups succeed, let \<open>b\<close> be the result of the
  before-phase call of \<^verbatim>\<open>process_seqword\<close>, trimmed: the result is whitespace, then \<open>b\<close>,
  then whitespace, and \<open>b\<close> neither starts nor ends with whitespace. If \<open>b\<close> is not
  empty, the data line has \<open>b\<close> and exactly one space between the word field's space and
  the mnemonic; if \<open>b\<close> is empty, the mnemonic follows the word field's space directly.
\<close>

theorem before_annotation_separator:
  assumes "stores_loaded U cpuid ucode seqwords labels"
    and "a \<in> set (visited (main U cpuid))"
    and "a < length ucode" and "base a < length seqwords"
    and "raw = process_seqword U cpuid a (ucode ! a) (seqwords ! base a) True"
    and "head = ''U'' @ format_0x 4 (int a) @ '': '' @ format_0x 12 (ucode ! a) @ '' ''"
    and "tail = strip (uop_disassemble U cpuid (ucode ! a) a) @ '' '' @
                strip (process_seqword U cpuid a (ucode ! a) (seqwords ! base a) False)"
  shows "(\<exists>l r. raw = l @ strip raw @ r \<and> list_all isspace l \<and> list_all isspace r) \<and>
         (strip raw \<noteq> [] \<longrightarrow>
            \<not> isspace (hd (strip raw)) \<and> \<not> isspace (last (strip raw)) \<and>
            filter is_data (emitted_for (main U cpuid) a) =
              [Print_data (head @ strip raw @ '' '' @ tail)]) \<and>
         (strip raw = [] \<longrightarrow>
            filter is_data (emitted_for (main U cpuid) a) = [Print_data (head @ tail)])"
proof -
  have "\<exists>l r. raw = l @ strip raw @ r \<and> list_all isspace l \<and> list_all isspace r"
    by (rule strip_decomposition)
  moreover have "strip raw \<noteq> [] \<longrightarrow> \<not> isspace (hd (strip raw)) \<and> \<not> isspace (last (strip raw))"
    using strip_ends [of raw] by blast
  moreover have "strip raw \<noteq> [] \<longrightarrow>
      filter is_data (emitted_for (main U cpuid) a) = [Print_data (head @ strip raw @ '' '' @ tail)]"
    by (simp add: emitted_data [OF assms(1-4)] data_line_def before_annotation_def assms(5-7))
  moreover have "strip raw = [] \<longrightarrow>
      filter is_data (emitted_for (main U cpuid) a) = [Print_data (head @ tail)]"
    by (simp add: emitted_data [OF assms(1-4)] data_line_def before_annotation_def assms(5-7))
  ultimately show ?thesis by blast
qed

theorem before_annotation_separator_witness:
  "stores_loaded scenario_uasm ''0x000506CA'' scenario_ucode scenario_seqwords scenario_labels \<and>
   5 \<in> set (visited (main scenario_uasm ''0x000506CA'')) \<and>
   5 < length scenario_ucode \<and> base 5 < length scenario_seqwords \<and>
   strip (process_seqword scenario_uasm ''0x000506CA'' 5 (scenario_ucode ! 5)
            (scenario_seqwords ! base 5) True) = ''SEQW'' \<and>
   filter is_data (emitted_for (main scenario_uasm ''0x000506CA'') 5) =
     [Print_data (''U0005: 000000000006 '' @ ''SEQW'' @ '' '' @ ''OP '')] \<and>
   4 \<in> set (visited (main scenario_uasm ''0x000506CA'')) \<and>
   4 < length scenario_ucode \<and> base 4 < length scenario_seqwords \<and>
   strip (process_seqword scenario_uasm ''0x000506CA'' 4 (scenario_ucode ! 4)
            (scenario_seqwords ! base 4) True) = [] \<and>
   filter is_data (emitted_for (main scenario_uasm ''0x000506CA'') 4) =
     [Print_data (''U0004: 000000000005 '' @ ''OP '')]"
proof -
  have v: "5 \<in> set (visited (main scenario_uasm ''0x000506CA''))"
    "4 \<in> set (visited (main scenario_uasm ''0x000506CA''))"
    by (simp_all add: scenario_complete set_trace)
  have l: "5 < length scenario_ucode" "base 5 < length scenario_seqwords"
    "4 < length scenario_ucode" "base 4 < length scenario_seqwords"
    by (simp_all add: scenario_lengths base_def)
  have u: "scenario_ucode ! 5 = 6" "scenario_ucode ! 4 = 5"
    by (simp_all add: scenario_words)
  have f: "uop_disassemble scenario_uasm = (\<lambda>g uop uaddr. '' OP '')"
    "process_seqword scenario_uasm =
      (\<lambda>g uaddr uop seqword before. if before \<and> uaddr = 5 then '' SEQW '' else [])"
    by (simp_all add: scenario_uasm_def)
  have 5: "filter is_data (emitted_for (main scenario_uasm ''0x000506CA'') 5) =
     [Print_data (''U0005: 000000000006 '' @ ''SEQW'' @ '' '' @ ''OP '')]"
    using before_annotation_separator [OF scenario_loaded v(1) l(1,2) refl refl refl]
    by (simp add: f u strip_examples hex_examples)
  have 4: "filter is_data (emitted_for (main scenario_uasm ''0x000506CA'') 4) =
     [Print_data (''U0004: 000000000005 '' @ ''OP '')]"
    using before_annotation_separator [OF scenario_loaded v(2) l(3,4) refl refl refl]
    by (simp add: f u strip_examples hex_examples)
  show ?thesis
    using 4 5 v l by (simp add: scenario_loaded f strip_examples)
qed

text \<open>
  Claim C6. At a visited address \<open>a\<close> whose lookups succeed, a label line is printed in
  the iteration if and only if \<open>labels\<close> has an entry for \<open>a\<close>; the line is the name and
  a colon, and it is the action just before the data line, which is the last action.
  Nothing is done for an address that is not visited, and every label line of a run
  belongs to a visited address that has the label.
\<close>

theorem label_line_before_data_line:
  assumes "stores_loaded U cpuid ucode seqwords labels"
    and "a \<in> set (visited (main U cpuid))"
    and "a < length ucode" and "base a < length seqwords"
  shows "(\<forall>l. Print_label l \<in> set (emitted_for (main U cpuid) a) \<longleftrightarrow>
              (\<exists>name. labels a = Some name \<and> l = name @ '':'')) \<and>
         (\<exists>pre d. emitted_for (main U cpuid) a =
              pre @ (case labels a of None \<Rightarrow> [] | Some name \<Rightarrow> [Print_label (name @ '':'')]) @
              [Print_data d] \<and>
              filter is_label pre = [] \<and> filter is_data pre = []) \<and>
         (\<forall>b. b \<notin> set (visited (main U cpuid)) \<longrightarrow> emitted_for (main U cpuid) b = []) \<and>
         (\<forall>l. Print_label l \<in> set (events (main U cpuid)) \<longrightarrow>
              (\<exists>b name. b \<in> set (visited (main U cpuid)) \<and> labels b = Some name \<and>
                         l = name @ '':''))"
proof -
  note e = emitted_ok [OF assms]
  have 1: "\<forall>l. Print_label l \<in> set (emitted_for (main U cpuid) a) \<longleftrightarrow>
              (\<exists>name. labels a = Some name \<and> l = name @ '':'')"
    by (cases "labels a") (auto simp: e)
  let ?pre = "(if a mod 4 = 0 \<and> a > 0 then [Print_blank] else []) @
    [Call_uop_disassemble cpuid (ucode ! a) a,
     Call_process_seqword cpuid a (ucode ! a) (seqwords ! base a) True,
     Call_process_seqword cpuid a (ucode ! a) (seqwords ! base a) False]"
  have "\<exists>d. emitted_for (main U cpuid) a =
              ?pre @ (case labels a of None \<Rightarrow> [] | Some name \<Rightarrow> [Print_label (name @ '':'')]) @
              [Print_data d] \<and>
              filter is_label ?pre = [] \<and> filter is_data ?pre = []"
    by (simp add: e)
  then have 2: "\<exists>pre d. emitted_for (main U cpuid) a =
              pre @ (case labels a of None \<Rightarrow> [] | Some name \<Rightarrow> [Print_label (name @ '':'')]) @
              [Print_data d] \<and>
              filter is_label pre = [] \<and> filter is_data pre = []"
    by blast
  have 3: "\<forall>b. b \<notin> set (visited (main U cpuid)) \<longrightarrow> emitted_for (main U cpuid) b = []"
    using emitted_unvisited by blast
  have 4: "\<forall>l. Print_label l \<in> set (events (main U cpuid)) \<longrightarrow>
              (\<exists>b name. b \<in> set (visited (main U cpuid)) \<and> labels b = Some name \<and>
                         l = name @ '':'')"
    using label_event_origin [OF assms(1)] by blast
  from 1 2 3 4 show ?thesis by blast
qed

theorem label_line_before_data_line_witness:
  "stores_loaded scenario_uasm ''0x000506CA'' scenario_ucode scenario_seqwords scenario_labels \<and>
   4 \<in> set (visited (main scenario_uasm ''0x000506CA'')) \<and>
   4 < length scenario_ucode \<and> base 4 < length scenario_seqwords \<and>
   scenario_labels 4 = Some ''L4'' \<and>
   Print_label ''L4:'' \<in> set (emitted_for (main scenario_uasm ''0x000506CA'') 4) \<and>
   scenario_labels 7 = Some ''L7'' \<and>
   7 \<notin> set (visited (main scenario_uasm ''0x000506CA'')) \<and>
   emitted_for (main scenario_uasm ''0x000506CA'') 7 = []"
proof -
  have v: "4 \<in> set (visited (main scenario_uasm ''0x000506CA''))"
    "7 \<notin> set (visited (main scenario_uasm ''0x000506CA''))"
    by (simp_all add: scenario_complete set_trace)
  have l: "4 < length scenario_ucode" "base 4 < length scenario_seqwords"
    by (simp_all add: scenario_lengths base_def)
  have s: "scenario_labels 4 = Some ''L4''" "scenario_labels 7 = Some ''L7''"
    by (simp_all add: scenario_labels_def)
  note t = label_line_before_data_line [OF scenario_loaded v(1) l]
  from t s(1) have "Print_label ''L4:'' \<in> set (emitted_for (main scenario_uasm ''0x000506CA'') 4)"
    by simp
  moreover from t v(2) have "emitted_for (main scenario_uasm ''0x000506CA'') 7 = []"
    by blast
  ultimately show ?thesis
    using v l s by (simp add: scenario_loaded)
qed

text \<open>
  Claim C7. The assertion of line 17, \<^verbatim>\<open>uaddr < 0x7c00\<close>, never fails: every address
  that the iteration yields is below \<open>0x7c00\<close>, so is every address of an iteration that
  a run starts, and no run of \<^verbatim>\<open>main\<close> ends with an \<open>AssertionError\<close>, whatever the
  collaborators return.
\<close>

theorem assertion_never_fails:
  "outcome (main U cpuid) \<noteq> Some AssertionError \<and>
   (\<forall>a \<in> set trace. a < 0x7c00) \<and>
   (\<forall>a \<in> set (visited (main U cpuid)). a < 0x7c00)"
proof -
  have t: "\<forall>a \<in> set trace. a < 0x7c00"
    by (simp add: set_trace)
  have v: "\<forall>a \<in> set (visited (main U cpuid)). a < 0x7c00"
    using t visited_in_trace [of _ U cpuid] by blast
  have "outcome (main U cpuid) \<noteq> Some AssertionError"
  proof
    assume bad: "outcome (main U cpuid) = Some AssertionError"
    then obtain ucode seqwords labels where l: "stores_loaded U cpuid ucode seqwords labels"
      using main_cases [of U cpuid] by auto
    with bad have "snd (for_loop (visit U cpuid ucode seqwords labels) trace) = Some AssertionError"
      by (simp add: main_loaded)
    then obtain a where "a \<in> set trace"
      and "snd (visit U cpuid ucode seqwords labels a) = Some AssertionError"
      using for_loop_error by blast
    with t show False
      using visit_passes_assert [of a U cpuid ucode seqwords labels] by blast
  qed
  with t v show ?thesis by blast
qed

theorem assertion_never_fails_witness:
  "outcome (main scenario_uasm ''0x000506CA'') \<noteq> Some AssertionError \<and>
   (0x7bfe \<in> set trace \<and> (0x7bfe :: nat) < 0x7c00)"
  using assertion_never_fails [of scenario_uasm "''0x000506CA''"]
  by (simp add: set_trace)

text \<open>
  Claim C8. The loop runs over a finite list, so it ends after at most \<open>0x5d00\<close>
  iterations. The addresses of the iterations that a run starts are an initial segment
  of \<open>trace\<close>, which is strictly ascending, starts with 0, ends with \<open>0x7bfe\<close> and
  holds neither \<open>0x7bff\<close> nor \<open>0x7c00\<close>; nothing is emitted for \<open>0x7c00\<close>. When the
  three stores are loaded and hold the entries \<open>0..0x7bfe\<close> (words) and \<open>0..0x7bfc\<close>
  (control words), the run visits all of \<open>trace\<close> and ends without an exception.
\<close>

theorem trace_iteration_terminates:
  "(\<exists>rest. trace = visited (main U cpuid) @ rest) \<and>
   length (visited (main U cpuid)) \<le> 0x5d00 \<and>
   sorted_wrt (<) (visited (main U cpuid)) \<and>
   sorted_wrt (<) trace \<and> hd trace = 0 \<and> last trace = 0x7bfe \<and>
   0x7bff \<notin> set trace \<and> 0x7c00 \<notin> set trace \<and>
   0x7bff \<notin> set (visited (main U cpuid)) \<and> 0x7c00 \<notin> set (visited (main U cpuid)) \<and>
   emitted_for (main U cpuid) 0x7c00 = [] \<and>
   (\<forall>ucode seqwords labels.
      stores_loaded U cpuid ucode seqwords labels \<and>
      0x7bfe < length ucode \<and> 0x7bfc < length seqwords \<longrightarrow>
      visited (main U cpuid) = trace \<and> outcome (main U cpuid) = None \<and>
      hd (visited (main U cpuid)) = 0 \<and> last (visited (main U cpuid)) = 0x7bfe)"
proof -
  obtain rest where p: "trace = visited (main U cpuid) @ rest"
    using visited_prefix [of U cpuid] by blast
  have "length trace = length (visited (main U cpuid)) + length rest"
    by (subst p) simp
  then have n: "length (visited (main U cpuid)) \<le> 0x5d00"
    by (simp add: length_trace)
  have t: "0x7bff \<notin> set trace" "0x7c00 \<notin> set trace"
    by (simp_all add: set_trace)
  then have v: "0x7bff \<notin> set (visited (main U cpuid))" "0x7c00 \<notin> set (visited (main U cpuid))"
    using visited_in_trace by blast+
  have e: "emitted_for (main U cpuid) 0x7c00 = []"
    using v(2) by (rule emitted_unvisited)
  have c: "\<forall>ucode seqwords labels.
      stores_loaded U cpuid ucode seqwords labels \<and>
      0x7bfe < length ucode \<and> 0x7bfc < length seqwords \<longrightarrow>
      visited (main U cpuid) = trace \<and> outcome (main U cpuid) = None \<and>
      hd (visited (main U cpuid)) = 0 \<and> last (visited (main U cpuid)) = 0x7bfe"
    using main_complete(2,3) [of U cpuid] hd_trace last_trace by auto
  from p n t v e c sorted_trace sorted_visited [of U cpuid] hd_trace last_trace
  show ?thesis by blast
qed

theorem trace_iteration_terminates_witness:
  "stores_loaded scenario_uasm ''0x000506CA'' scenario_ucode scenario_seqwords scenario_labels \<and>
   0x7bfe < length scenario_ucode \<and> 0x7bfc < length scenario_seqwords \<and>
   visited (main scenario_uasm ''0x000506CA'') = trace \<and>
   outcome (main scenario_uasm ''0x000506CA'') = None \<and>
   last (visited (main scenario_uasm ''0x000506CA'')) = 0x7bfe"
proof -
  have l: "0x7bfe < length scenario_ucode" "0x7bfc < length scenario_seqwords"
    by (simp_all add: scenario_lengths)
  with trace_iteration_terminates [of scenario_uasm "''0x000506CA''"] scenario_loaded
  have "visited (main scenario_uasm ''0x000506CA'') = trace \<and>
        outcome (main scenario_uasm ''0x000506CA'') = None \<and>
        last (visited (main scenario_uasm ''0x000506CA'')) = 0x7bfe"
    by blast
  with l scenario_loaded show ?thesis by blast
qed

text \<open>
  Claim C9. The word field has a minimum width, not a fixed one. At a visited address
  whose lookups succeed the iteration ends without an exception and prints the word
  \<open>w = ucode ! a\<close> (an unsigned value) through the format \<^verbatim>\<open>012x\<close>: for \<open>w < 2^48\<close> the
  field is exactly 12 lowercase hex digits reading as \<open>w\<close>; for \<open>w \<ge> 2^48\<close> it is the
  plain hexadecimal numeral of \<open>w\<close>, longer than 12 digits and still reading as \<open>w\<close>.
\<close>

theorem word_field_minimum_width:
  assumes "stores_loaded U cpuid ucode seqwords labels"
    and "a \<in> set (visited (main U cpuid))"
    and "a < length ucode" and "base a < length seqwords"
    and "w = ucode ! a" and "0 \<le> w"
  shows "snd (visit U cpuid ucode seqwords labels a) = None \<and>
         (\<exists>rest. filter is_data (emitted_for (main U cpuid) a) =
            [Print_data (''U'' @ format_0x 4 (int a) @ '': '' @ format_0x 12 w @ '' '' @ rest)]) \<and>
         (w < 2 ^ 48 \<longrightarrow> is_hex_field 12 (nat w) (format_0x 12 w)) \<and>
         (2 ^ 48 \<le> w \<longrightarrow>
            12 < length (format_0x 12 w) \<and>
            format_0x 12 w = hex_nat (nat w) \<and>
            list_all (\<lambda>c. c \<in> set hexdigits) (format_0x 12 w) \<and>
            hex_value (format_0x 12 w) = nat w)"
proof -
  have "a < 0x7c00"
    using visited_in_trace [OF assms(2)] by (simp add: set_trace)
  then have 1: "snd (visit U cpuid ucode seqwords labels a) = None"
    using assms(3,4) by (simp add: visit_ok)
  have 2: "\<exists>rest. filter is_data (emitted_for (main U cpuid) a) =
            [Print_data (''U'' @ format_0x 4 (int a) @ '': '' @ format_0x 12 w @ '' '' @ rest)]"
    by (simp add: emitted_data [OF assms(1-4)] data_line_def assms(5))
  have 3: "w < 2 ^ 48 \<longrightarrow> is_hex_field 12 (nat w) (format_0x 12 w)"
    using assms(6) word_field by blast
  have 4: "2 ^ 48 \<le> w \<longrightarrow>
            12 < length (format_0x 12 w) \<and>
            format_0x 12 w = hex_nat (nat w) \<and>
            list_all (\<lambda>c. c \<in> set hexdigits) (format_0x 12 w) \<and>
            hex_value (format_0x 12 w) = nat w"
    using word_field_wide [of w] hex_nat_digits [of "nat w"] hex_value_hex_nat [of "nat w"]
    by auto
  from 1 2 3 4 show ?thesis by blast
qed

theorem word_field_minimum_width_witness:
  "stores_loaded scenario_uasm ''0x000506CA'' scenario_ucode scenario_seqwords scenario_labels \<and>
   9 \<in> set (visited (main scenario_uasm ''0x000506CA'')) \<and>
   9 < length scenario_ucode \<and> base 9 < length scenario_seqwords \<and>
   scenario_ucode ! 9 = 0x1000000000000 \<and> (0 :: int) \<le> 0x1000000000000 \<and>
   (2 :: int) ^ 48 \<le> 0x1000000000000 \<and>
   12 < length (format_0x 12 0x1000000000000) \<and>
   hex_value (format_0x 12 0x1000000000000) = nat 0x1000000000000 \<and>
   5 \<in> set (visited (main scenario_uasm ''0x000506CA'')) \<and>
   5 < length scenario_ucode \<and> base 5 < length scenario_seqwords \<and>
   scenario_ucode ! 5 = 6 \<and> (0 :: int) \<le> 6 \<and> (6 :: int) < 2 ^ 48 \<and>
   is_hex_field 12 6 (format_0x 12 6)"
proof -
  have v: "9 \<in> set (visited (main scenario_uasm ''0x000506CA''))"
    "5 \<in> set (visited (main scenario_uasm ''0x000506CA''))"
    by (simp_all add: scenario_complete set_trace)
  have l: "9 < length scenario_ucode" "base 9 < length scenario_seqwords"
    "5 < length scenario_ucode" "base 5 < length scenario_seqwords"
    by (simp_all add: scenario_lengths base_def)
  have u: "0x1000000000000 = scenario_ucode ! 9" "6 = scenario_ucode ! 5"
    by (simp_all add: scenario_words)
  have r: "(0 :: int) \<le> 0x1000000000000" "(2 :: int) ^ 48 \<le> 0x1000000000000"
    "(0 :: int) \<le> 6" "(6 :: int) < 2 ^ 48"
    by simp_all
  have 9: "12 < length (format_0x 12 0x1000000000000) \<and>
      hex_value (format_0x 12 0x1000000000000) = nat 0x1000000000000"
    using word_field_minimum_width [OF scenario_loaded v(1) l(1,2) u(1) r(1)] r(2) by blast
  have 5: "is_hex_field 12 (nat 6) (format_0x 12 6)"
    using word_field_minimum_width [OF scenario_loaded v(2) l(3,4) u(2) r(3)] r(4) by blast
  then have "is_hex_field 12 6 (format_0x 12 6)" by simp
  with 9 v l r u [symmetric] scenario_loaded show ?thesis by blast
qed

text \<open>
  Claim C10. The first action of every run of \<^verbatim>\<open>main\<close> is the assignment of the
  command-line value \<open>cpuid\<close> to the global \<^verbatim>\<open>uasm.cpuid_\<close>. It is the only assignment
  of the run: all loads and all decode calls come after it, and each of them finds the
  global equal to \<open>cpuid\<close>.
\<close>

theorem cpuid_global_assigned_once:
  "\<exists>rest. events (main U cpuid) = Assign_cpuid cpuid # rest \<and>
          filter is_assign (events (main U cpuid)) = [Assign_cpuid cpuid] \<and>
          filter is_assign rest = [] \<and>
          (\<forall>e \<in> set rest. is_load e \<or> is_decode e \<longrightarrow> global_seen e = Some cpuid)"
proof -
  obtain rest0 where p: "prologue (main U cpuid) = Assign_cpuid cpuid # rest0"
    and r0: "list_all (\<lambda>e. is_load e \<and> global_seen e = Some cpuid) rest0"
    using main_prologue [of U cpuid] by blast
  let ?its = "concat (map snd (iterations (main U cpuid)))"
  let ?rest = "rest0 @ ?its"
  have ev: "events (main U cpuid) = Assign_cpuid cpuid # ?rest"
    by (simp add: events_def p)
  have a0: "\<forall>e \<in> set rest0. \<not> is_assign e"
  proof
    fix e assume "e \<in> set rest0"
    with r0 have "is_load e" by (simp add: list_all_iff)
    then show "\<not> is_assign e" by (cases e) simp_all
  qed
  have a1: "\<forall>e \<in> set ?its. \<not> is_assign e"
    using iteration_event [of _ U cpuid] by blast
  have na: "filter is_assign ?rest = []"
    using a0 a1 by (simp add: filter_empty_conv)
  have g0: "\<forall>e \<in> set rest0. global_seen e = Some cpuid"
    using r0 by (simp add: list_all_iff)
  have g1: "\<forall>e \<in> set ?its. is_load e \<or> is_decode e \<longrightarrow> global_seen e = Some cpuid"
    using iteration_event [of _ U cpuid] by blast
  have g: "\<forall>e \<in> set ?rest. is_load e \<or> is_decode e \<longrightarrow> global_seen e = Some cpuid"
    using g0 g1 by auto
  have "filter is_assign (events (main U cpuid)) = [Assign_cpuid cpuid]"
    using na by (simp only: ev filter.simps is_assign.simps if_True)
  with ev na g show ?thesis by blast
qed

theorem cpuid_global_assigned_once_witness:
  "hd (events (main scenario_uasm ''0x000506CA'')) = Assign_cpuid ''0x000506CA'' \<and>
   filter is_assign (events (main scenario_uasm ''0x000506CA'')) = [Assign_cpuid ''0x000506CA''] \<and>
   Call_uop_disassemble ''0x000506CA'' 5 4 \<in> set (events (main scenario_uasm ''0x000506CA'')) \<and>
   is_decode (Call_uop_disassemble ''0x000506CA'' 5 4) \<and>
   global_seen (Call_uop_disassemble ''0x000506CA'' 5 4) = Some ''0x000506CA''"
proof -
  have "Call_uop_disassemble ''0x000506CA'' 5 4 \<in> set (emitted_for (main scenario_uasm ''0x000506CA'') 4)"
    by (simp add: scenario_at_4)
  then have "Call_uop_disassemble ''0x000506CA'' 5 4 \<in> set (events (main scenario_uasm ''0x000506CA''))"
    using emitted_in_events by blast
  then show ?thesis
    using cpuid_global_assigned_once [of scenario_uasm "''0x000506CA''"] by auto
qed

end
